theory Spec2Isabelle
  imports Main
begin

section \<open>Strings and regular expressions of the source\<close>

text \<open>
  A JavaScript string is modelled as a \<^typ>\<open>string\<close>: one \<^typ>\<open>char\<close> per UTF-16 code
  unit, restricted to the code units below 256. The character classes below are the
  members of the JavaScript classes in that range.
\<close>

definition isSpace :: "char \<Rightarrow> bool" where
  \<comment> \<open>\<^verbatim>\<open>\s\<close>: tab, line feed, vertical tab, form feed, carriage return, space, no-break space\<close>
  "isSpace c = (c \<in> set [CHR 0x09, CHR 0x0A, CHR 0x0B, CHR 0x0C, CHR 0x0D, CHR 0x20, CHR 0xA0])"

definition isAlnum :: "char \<Rightarrow> bool" where
  \<comment> \<open>\<^verbatim>\<open>[A-Za-z0-9]\<close>\<close>
  "isAlnum c = (let n = (of_char c :: nat) in
     (65 \<le> n \<and> n \<le> 90) \<or> (97 \<le> n \<and> n \<le> 122) \<or> (48 \<le> n \<and> n \<le> 57))"

definition isDot :: "char \<Rightarrow> bool" where
  \<comment> \<open>\<^verbatim>\<open>.\<close>: any character but a line terminator\<close>
  "isDot c = (c \<noteq> CHR 0x0A \<and> c \<noteq> CHR 0x0D)"

definition isTagChar :: "char \<Rightarrow> bool" where
  \<comment> \<open>\<^verbatim>\<open>[^?\s|/>]\<close>\<close>
  "isTagChar c = (c \<notin> set ''?|/>'' \<and> \<not> isSpace c)"

definition isPrefixChar :: "char \<Rightarrow> bool" where
  \<comment> \<open>\<^verbatim>\<open>[^:\s|/>]\<close>\<close>
  "isPrefixChar c = (c \<notin> set '':|/>'' \<and> \<not> isSpace c)"

definition isUriChar :: "char \<Rightarrow> bool" where
  \<comment> \<open>\<^verbatim>\<open>[^\s|>]\<close>\<close>
  "isUriChar c = (c \<notin> set ''|>'' \<and> \<not> isSpace c)"

definition isLocationChar :: "char \<Rightarrow> bool" where
  \<comment> \<open>\<^verbatim>\<open>[^"|>]\<close>\<close>
  "isLocationChar c = (c \<noteq> CHR 0x22 \<and> c \<notin> set ''|>'')"

definition isValueChar :: "char \<Rightarrow> bool" where
  \<comment> \<open>\<^verbatim>\<open>[^"]\<close>\<close>
  "isValueChar c = (c \<noteq> CHR 0x22)"

text \<open>
  The regular expressions of the source use literals, character classes, greedy \<^verbatim>\<open>+\<close>
  and \<^verbatim>\<open>*\<close> on a class, \<^verbatim>\<open>?\<close>, sequence, alternation, look-ahead, negative look-ahead,
  look-behind and \<^verbatim>\<open>$\<close> (without the multiline flag: the end of the input).
\<close>

datatype rx =
    Lit string
  | Cls "char \<Rightarrow> bool"
  | Plus "char \<Rightarrow> bool"
  | Star "char \<Rightarrow> bool"
  | Opt rx
  | Seq rx rx
  | Alt rx rx
  | Ahead rx
  | NotAhead rx
  | Behind rx
  | Eoi

text \<open>
  \<open>greedy p s\<close>: the lengths of the non-empty prefixes of \<open>s\<close> whose characters all
  satisfy \<open>p\<close>, the longest first, which is the order in which a backtracking matcher
  tries a greedy repetition.
\<close>

fun greedy :: "(char \<Rightarrow> bool) \<Rightarrow> string \<Rightarrow> nat list" where
  "greedy p [] = []"
| "greedy p (c # cs) = (if p c then map Suc (greedy p cs) @ [1] else [])"

text \<open>
  \<open>ends fw r back ahead\<close>: the numbers of characters that \<open>r\<close> can consume at the
  current position, in the order in which a backtracking matcher finds them. The
  matcher runs forward (\<open>fw\<close>) or, inside a look-behind, backward; \<open>ahead\<close> is the text in
  the direction of the match and \<open>back\<close> the text in the other direction, both listed
  going away from the current position.
\<close>

fun ends :: "bool \<Rightarrow> rx \<Rightarrow> string \<Rightarrow> string \<Rightarrow> nat list" where
  "ends fw (Lit s) back ahead =
     (let t = (if fw then s else rev s)
      in if take (length t) ahead = t then [length t] else [])"
| "ends fw (Cls p) back ahead =
     (case ahead of [] \<Rightarrow> [] | c # _ \<Rightarrow> if p c then [1] else [])"
| "ends fw (Plus p) back ahead = greedy p ahead"
| "ends fw (Star p) back ahead = greedy p ahead @ [0]"
| "ends fw (Opt r) back ahead = ends fw r back ahead @ [0]"
| "ends True (Seq r s) back ahead =
     concat (map (\<lambda>n. map (\<lambda>m. n + m) (ends True s (rev (take n ahead) @ back) (drop n ahead)))
                 (ends True r back ahead))"
| "ends False (Seq r s) back ahead =
     concat (map (\<lambda>n. map (\<lambda>m. n + m) (ends False r (rev (take n ahead) @ back) (drop n ahead)))
                 (ends False s back ahead))"
| "ends fw (Alt r s) back ahead = ends fw r back ahead @ ends fw s back ahead"
| "ends fw (Ahead r) back ahead =
     (if (if fw then ends True r back ahead else ends True r ahead back) = [] then [] else [0])"
| "ends fw (NotAhead r) back ahead =
     (if (if fw then ends True r back ahead else ends True r ahead back) = [] then [0] else [])"
| "ends fw (Behind r) back ahead =
     (if (if fw then ends False r ahead back else ends False r back ahead) = [] then [] else [0])"
| "ends fw Eoi back ahead = (if (if fw then ahead else back) = [] then [0] else [])"

text \<open>
  \<^verbatim>\<open>text.match(regex)\<close> without the \<^verbatim>\<open>g\<close> flag: the leftmost match, or \<^verbatim>\<open>null\<close>.
  \<open>bef\<close> is the text already passed, reversed.
\<close>

fun firstMatch :: "rx \<Rightarrow> string \<Rightarrow> string \<Rightarrow> string option" where
  "firstMatch r bef [] = (case ends True r bef [] of [] \<Rightarrow> None | n # _ \<Rightarrow> Some [])"
| "firstMatch r bef (c # cs) =
     (case ends True r bef (c # cs) of
        [] \<Rightarrow> firstMatch r (c # bef) cs
      | n # _ \<Rightarrow> Some (take n (c # cs)))"

text \<open>
  \<^verbatim>\<open>text.match(regex)\<close> with the \<^verbatim>\<open>g\<close> flag: every match, left to right, the search
  resuming where the last match ended (one character further after an empty match).
  \<open>k\<close> counts the characters of the last match that are still to be passed.
\<close>

fun scanAll :: "rx \<Rightarrow> string \<Rightarrow> string \<Rightarrow> nat \<Rightarrow> string list" where
  "scanAll r bef [] k = (if k = 0 \<and> ends True r bef [] \<noteq> [] then [[]] else [])"
| "scanAll r bef (c # cs) k =
     (if 0 < k then scanAll r (c # bef) cs (k - 1)
      else (case ends True r bef (c # cs) of
              [] \<Rightarrow> scanAll r (c # bef) cs 0
            | n # _ \<Rightarrow> take n (c # cs) # scanAll r (c # bef) cs (n - 1)))"

definition getMatchesForRegex :: "string \<Rightarrow> rx \<Rightarrow> string list" where
  \<comment> \<open>\<^verbatim>\<open>null\<close> (no match) becomes the empty list, as in the source\<close>
  "getMatchesForRegex text regex = scanAll regex [] text 0"

text \<open>
  \<^verbatim>\<open>text.split(separator)\<close>: \<open>cur\<close> is the piece being collected, reversed; a separator
  that matches the empty string splits between characters, never at the start of a
  piece.
\<close>

fun splitScan :: "rx \<Rightarrow> string \<Rightarrow> string \<Rightarrow> string \<Rightarrow> nat \<Rightarrow> string list" where
  "splitScan r bef cur [] k = [rev cur]"
| "splitScan r bef cur (c # cs) k =
     (if 0 < k then splitScan r (c # bef) cur cs (k - 1)
      else (case ends True r bef (c # cs) of
              [] \<Rightarrow> splitScan r (c # bef) (c # cur) cs 0
            | n # _ \<Rightarrow>
                if n = 0 then
                  (if cur = [] then splitScan r (c # bef) [c] cs 0
                   else rev cur # splitScan r (c # bef) [c] cs 0)
                else rev cur # splitScan r (c # bef) [] cs (n - 1)))"

definition split :: "string \<Rightarrow> rx \<Rightarrow> string list" where
  "split text separator =
     (if text = [] then (if ends True separator [] [] = [] then [[]] else [])
      else splitScan separator [] [] text 0)"

fun nth_opt :: "'a list \<Rightarrow> nat \<Rightarrow> 'a option" where
  \<comment> \<open>\<^verbatim>\<open>xs[i]\<close>, \<^verbatim>\<open>undefined\<close> out of range\<close>
  "nth_opt [] i = None"
| "nth_opt (x # xs) 0 = Some x"
| "nth_opt (x # xs) (Suc i) = nth_opt xs i"

definition fromEnd :: "'a list \<Rightarrow> nat \<Rightarrow> 'a option" where
  \<comment> \<open>\<^verbatim>\<open>xs[xs.length - k]\<close> for \<open>k \<ge> 1\<close>, \<^verbatim>\<open>undefined\<close> when the index is negative\<close>
  "fromEnd xs k = (if k \<le> length xs then nth_opt xs (length xs - k) else None)"

section \<open>The completion kind (XsdCompletion.ts)\<close>

datatype CompletionType =
  none | element | attribute | closingElement | incompleteElement | incompleteAttribute | snippet

datatype CompletionTriggerKind = Invoke | TriggerCharacter | TriggerForIncompleteCompletions

record CompletionContext =
  triggerKind :: CompletionTriggerKind
  triggerCharacter :: "string option"

definition regexForInsideAttributeValue :: rx where
  \<comment> \<open>\<^verbatim>\<open>/="[^"]+$/\<close>\<close>
  "regexForInsideAttributeValue = Seq (Lit [CHR ''='', CHR 0x22]) (Seq (Plus isValueChar) Eoi)"

definition isInsideAttributeValue :: "string \<Rightarrow> bool" where
  "isInsideAttributeValue text = (firstMatch regexForInsideAttributeValue [] text \<noteq> None)"

definition regexForAttributes :: rx where
  \<comment> \<open>\<^verbatim>\<open>/(?<=\s)[A-Za-z0-9]+/g\<close>\<close>
  "regexForAttributes = Seq (Behind (Cls isSpace)) (Plus isAlnum)"

definition getAttributesFromText :: "string \<Rightarrow> string list" where
  "getAttributesFromText text = getMatchesForRegex text regexForAttributes"

definition textContainsAttributes :: "string \<Rightarrow> bool" where
  "textContainsAttributes text = (0 < length (getAttributesFromText text))"

definition regexForTags :: rx where
  \<comment> \<open>\<^verbatim>\<open>/(?<=<|<\/)[^?\s|/>]+(?!.+\/>)/g\<close>\<close>
  "regexForTags =
     Seq (Behind (Alt (Lit ''<'') (Lit ''</'')))
         (Seq (Plus isTagChar) (NotAhead (Seq (Plus isDot) (Lit ''/>''))))"

definition getTagsFromText :: "string \<Rightarrow> string list" where
  "getTagsFromText text = getMatchesForRegex text regexForTags"

definition textContainsTags :: "string \<Rightarrow> bool" where
  "textContainsTags text = (0 < length (getTagsFromText text))"

definition getCompletionTypeForIncompleteCompletion :: "string \<Rightarrow> CompletionType" where
  "getCompletionTypeForIncompleteCompletion text =
     (if textContainsAttributes text then incompleteAttribute
      else if textContainsTags text then incompleteElement
      else snippet)"

definition getCompletionTypeByTriggerCharacter :: "string option \<Rightarrow> CompletionType" where
  "getCompletionTypeByTriggerCharacter character =
     (if character = Some ''<'' then element
      else if character = Some '' '' then attribute
      else if character = Some ''/'' then closingElement
      else none)"

text \<open>
  \<open>getCompletionType\<close> reads the document only through
  \<^verbatim>\<open>model.getLineContent(position.lineNumber)\<close>, the whole current line, which is the
  first argument here.
\<close>

definition getCompletionType :: "string \<Rightarrow> CompletionContext \<Rightarrow> CompletionType" where
  "getCompletionType wordsBeforePosition context =
     (if isInsideAttributeValue wordsBeforePosition then none
      else (case triggerKind context of
              Invoke \<Rightarrow> getCompletionTypeForIncompleteCompletion wordsBeforePosition
            | TriggerForIncompleteCompletions \<Rightarrow>
                getCompletionTypeForIncompleteCompletion wordsBeforePosition
            | TriggerCharacter \<Rightarrow>
                getCompletionTypeByTriggerCharacter (triggerCharacter context)))"

section \<open>The unclosed tags\<close>

definition lastTag :: "string list \<Rightarrow> string option" where
  \<comment> \<open>\<^verbatim>\<open>parentTags[parentTags.length - 1]\<close>\<close>
  "lastTag parentTags = fromEnd parentTags 1"

text \<open>
  The inner loop \<^verbatim>\<open>while (parentTags[parentTags.length - 1] !== tag) parentTags.pop()\<close>.
  On an array without \<open>tag\<close> it empties the array and then never ends; \<open>None\<close> is
  that outcome.
\<close>

partial_function (option) popUntil :: "string \<Rightarrow> string list \<Rightarrow> string list option" where
  "popUntil tag parentTags =
     (if lastTag parentTags \<noteq> Some tag then popUntil tag (butlast parentTags)
      else Some parentTags)"

declare popUntil.simps [code]

definition visitTag :: "string list \<Rightarrow> string \<Rightarrow> string list option" where
  \<comment> \<open>the body of \<^verbatim>\<open>tags.map\<close>\<close>
  "visitTag parentTags tag =
     (if tag \<in> set parentTags then
        (case popUntil tag parentTags of
           None \<Rightarrow> None
         | Some popped \<Rightarrow> Some (butlast popped))
      else Some (parentTags @ [tag]))"

fun visitTags :: "string list \<Rightarrow> string list \<Rightarrow> string list option" where
  "visitTags parentTags [] = Some parentTags"
| "visitTags parentTags (tag # tags) =
     (case visitTag parentTags tag of
        None \<Rightarrow> None
      | Some parentTags' \<Rightarrow> visitTags parentTags' tags)"

definition getUnclosedTags :: "string \<Rightarrow> string list option" where
  "getUnclosedTags text = visitTags [] (getTagsFromText text)"

text \<open>
  The stack discipline in the words of the specification: a token that is in the
  sequence removes the entries from the end through and including its first
  occurrence, any other token is appended.
\<close>

definition nameMatchedStep :: "string list \<Rightarrow> string \<Rightarrow> string list" where
  "nameMatchedStep stack token =
     (if token \<in> set stack then takeWhile (\<lambda>t. t \<noteq> token) stack else stack @ [token])"

section \<open>The parent tag and the closing-tag completion\<close>

text \<open>
  A request reads the editor's document through four queries of the Document Model,
  whose results are the fields of this record:
  \<^verbatim>\<open>model.getLineContent(position.lineNumber)\<close>, the text from the start of the document
  to the position, \<^verbatim>\<open>model.getWordAtPosition(position)\<close> (its \<^verbatim>\<open>word\<close>, or \<^verbatim>\<open>null\<close>) and the
  full text.
\<close>

record Request =
  lineContent :: string
  textUntilPosition :: string
  wordAtPosition :: "string option"
  fullText :: string

text \<open>
  The text before the cursor in the words of the specification: the columns of the
  Document Model count from 1, and the cursor at \<open>column\<close> stands before the
  character of that column.
\<close>

definition textBeforeCursor :: "string \<Rightarrow> nat \<Rightarrow> string" where
  "textBeforeCursor line column = take (column - 1) line"

definition wordAtPositionIsEqualToLastUnclosedTag :: "string option \<Rightarrow> string list \<Rightarrow> bool" where
  "wordAtPositionIsEqualToLastUnclosedTag word unclosedTags =
     (word \<noteq> None \<and> word = fromEnd unclosedTags 1)"

definition colon :: rx where
  "colon = Lit '':''"

definition truthy :: "string option \<Rightarrow> bool" where
  \<comment> \<open>a string or \<^verbatim>\<open>undefined\<close> in a condition: defined and not empty\<close>
  "truthy s = (s \<noteq> None \<and> s \<noteq> Some [])"

text \<open>
  The result is \<open>None\<close> when the scan of the tags does not end, \<open>Some None\<close> when the
  function returns \<^verbatim>\<open>undefined\<close>.
\<close>

definition getParentTag :: "Request \<Rightarrow> string option option" where
  "getParentTag req =
     (case getUnclosedTags (textUntilPosition req) of
        None \<Rightarrow> None
      | Some unclosedTags \<Rightarrow>
          if wordAtPositionIsEqualToLastUnclosedTag (wordAtPosition req) unclosedTags
          then Some (fromEnd unclosedTags 2)
          else
            (let tagsInLine = getTagsFromText (lineContent req) in
             if 0 < length tagsInLine \<and>
                (case fromEnd tagsInLine 1 of
                   None \<Rightarrow> False
                 | Some lastTagInLine \<Rightarrow>
                     (let lastTagInlineWithoutNamespace = nth_opt (split lastTagInLine colon) 1
                      in wordAtPosition req \<noteq> None \<and>
                         truthy lastTagInlineWithoutNamespace \<and>
                         lastTagInlineWithoutNamespace = wordAtPosition req))
             then Some (fromEnd unclosedTags 2)
             else Some (fromEnd unclosedTags 1)))"

datatype CompletionItemKind = Method | Property | Snippet | Variable

record ICompletion =
  label :: "string option"
  kind :: CompletionItemKind
  detail :: string
  insertText :: "string option"
  documentation :: string

definition interpolate :: "string option \<Rightarrow> string" where
  \<comment> \<open>a value inside a template literal\<close>
  "interpolate s = (case s of None \<Rightarrow> ''undefined'' | Some t \<Rightarrow> t)"

definition getClosingElementCompletion :: "string option \<Rightarrow> ICompletion list" where
  "getClosingElementCompletion elem =
     [\<lparr> label = elem, kind = Property, detail = ''Close tag'', insertText = elem,
        documentation = ''Closes the unclosed '' @ interpolate elem @ '' tag in this file.'' \<rparr>]"

definition getTagWithoutNamespace :: "string \<Rightarrow> string option" where
  "getTagWithoutNamespace tag = fromEnd (split tag colon) 1"

definition getCompletionNamespace :: "string \<Rightarrow> string" where
  \<comment> \<open>the argument is \<^verbatim>\<open>model.getLineContent(position.lineNumber)\<close>\<close>
  "getCompletionNamespace line =
     (let tagsInLine = getTagsFromText line in
      case fromEnd tagsInLine 1 of
        None \<Rightarrow> []
      | Some lastTagInLine \<Rightarrow>
          (let tagParts = split lastTagInLine colon in
           if 1 < length tagParts then (case tagParts of p # _ \<Rightarrow> p | [] \<Rightarrow> []) else []))"

section \<open>The namespaces of a document\<close>

text \<open>
  A JavaScript \<^verbatim>\<open>Map\<close> keeps its entries in insertion order: \<^verbatim>\<open>set\<close> replaces the
  value of a key that is present and appends a new key.
\<close>

fun mapSet :: "'k \<Rightarrow> 'v \<Rightarrow> ('k \<times> 'v) list \<Rightarrow> ('k \<times> 'v) list" where
  "mapSet k v [] = [(k, v)]"
| "mapSet k v ((k', v') # m) = (if k' = k then (k, v) # m else (k', v') # mapSet k v m)"

definition mapGet :: "('k \<times> 'v) list \<Rightarrow> 'k \<Rightarrow> 'v option" where
  "mapGet m k = map_of m k"

record INamespaceInfo =
  prefix :: "string option"
  path :: string

definition regexForNamespaces :: rx where
  \<comment> \<open>\<^verbatim>\<open>/(?<=xmlns:)(?!xsi|html)[^:\s|/>]+="[^\s|>]+(?=")/g\<close>\<close>
  "regexForNamespaces =
     Seq (Behind (Lit ''xmlns:''))
      (Seq (NotAhead (Alt (Lit ''xsi'') (Lit ''html'')))
        (Seq (Plus isPrefixChar)
          (Seq (Lit [CHR ''='', CHR 0x22])
            (Seq (Plus isUriChar) (Ahead (Lit [CHR 0x22]))))))"

definition regexForNoNamespaces :: rx where
  \<comment> \<open>\<^verbatim>\<open>/(?<=xmlns=")[^\s|>]+(?=")/g\<close>\<close>
  "regexForNoNamespaces =
     Seq (Behind (Lit (''xmlns='' @ [CHR 0x22])))
         (Seq (Plus isUriChar) (Ahead (Lit [CHR 0x22])))"

definition equalsQuote :: rx where
  "equalsQuote = Lit [CHR ''='', CHR 0x22]"

text \<open>
  Each match of \<open>regexForNamespaces\<close> contains \<^verbatim>\<open>="\<close>, so \<^verbatim>\<open>part[0]\<close> and \<^verbatim>\<open>part[1]\<close>
  exist; the last case of \<open>setNamespace\<close> is written for totality only.
\<close>

definition setNamespace :: "(string \<times> string) list \<Rightarrow> string \<Rightarrow> (string \<times> string) list" where
  "setNamespace namespaceMap match =
     (case split match equalsQuote of
        p0 # p1 # _ \<Rightarrow> mapSet p1 p0 namespaceMap
      | _ \<Rightarrow> namespaceMap)"

definition getNamespaces :: "string \<Rightarrow> (string \<times> string) list" where
  "getNamespaces text =
     (let namespaceMap = foldl setNamespace [] (getMatchesForRegex text regexForNamespaces)
      in foldl (\<lambda>m match. mapSet match [] m) namespaceMap
               (getMatchesForRegex text regexForNoNamespaces))"

definition locationLookbehind :: "string \<Rightarrow> rx" where
  \<comment> \<open>\<^verbatim>\<open>(?<=(name=\n?\s*"))\<close>\<close>
  "locationLookbehind name =
     Behind (Seq (Lit (name @ ''='')) (Seq (Opt (Lit [CHR 0x0A])) (Seq (Star isSpace) (Lit [CHR 0x22]))))"

definition regexForNamespacesSchemaLocations :: rx where
  \<comment> \<open>\<^verbatim>\<open>/(?<=(xsi:schemaLocation=\n?\s*"))[^"|>]+(?=")/g\<close>\<close>
  "regexForNamespacesSchemaLocations =
     Seq (locationLookbehind ''xsi:schemaLocation'')
         (Seq (Plus isLocationChar) (Ahead (Lit [CHR 0x22])))"

definition regexForNoNamespacesSchemaLocations :: rx where
  \<comment> \<open>\<^verbatim>\<open>/(?<=(xsi:noNamespaceSchemaLocation=\n?\s*"))[^"|>]+(?=")/g\<close>\<close>
  "regexForNoNamespacesSchemaLocations =
     Seq (locationLookbehind ''xsi:noNamespaceSchemaLocation'')
         (Seq (Plus isLocationChar) (Ahead (Lit [CHR 0x22])))"

text \<open>
  \<^verbatim>\<open>matches.forEach((location, index) => { if (index % 2) map.set(location, matches[index - 1]) })\<close>:
  \<open>previous\<close> is \<^verbatim>\<open>matches[index - 1]\<close>, absent at index 0 only, where nothing is set.
\<close>

fun setLocations ::
  "(string \<times> string) list \<Rightarrow> nat \<Rightarrow> string option \<Rightarrow> string list \<Rightarrow> (string \<times> string) list" where
  "setLocations m index previous [] = m"
| "setLocations m index previous (location # rest) =
     setLocations
       (case previous of
          Some uri \<Rightarrow> if index mod 2 \<noteq> 0 then mapSet location uri m else m
        | None \<Rightarrow> m)
       (index + 1) (Some location) rest"

definition getNamespacesSchemaLocations :: "string \<Rightarrow> (string \<times> string) list" where
  "getNamespacesSchemaLocations text =
     (let namespaceSchemaLocationsMap =
        foldl (\<lambda>m match. setLocations m 0 None (split match (Plus isSpace))) []
              (getMatchesForRegex text regexForNamespacesSchemaLocations)
      in foldl (\<lambda>m match. mapSet match (''file://'' @ match) m) namespaceSchemaLocationsMap
               (getMatchesForRegex text regexForNoNamespacesSchemaLocations))"

text \<open>
  The loop \<^verbatim>\<open>for (const [path, uri] of namespaceSchemaLocations.entries())\<close>: the keys of
  the schema-location map are the paths, its values the URIs, and the result is keyed
  by the URI.
\<close>

definition matchNamespacesAndNamespaceSchemaLocations ::
  "(string \<times> string) list \<Rightarrow> (string \<times> string) list \<Rightarrow> (string \<times> INamespaceInfo) list" where
  "matchNamespacesAndNamespaceSchemaLocations namespaces namespaceSchemaLocations =
     foldl (\<lambda>matched (p, uri). mapSet uri \<lparr> prefix = mapGet namespaces uri, path = p \<rparr> matched)
           [] namespaceSchemaLocations"

definition getXsdNamespaces :: "string \<Rightarrow> (string \<times> INamespaceInfo) list" where
  \<comment> \<open>the argument is the full text of the model\<close>
  "getXsdNamespaces text =
     matchNamespacesAndNamespaceSchemaLocations (getNamespaces text)
       (getNamespacesSchemaLocations text)"

section \<open>The schema sources of a namespace\<close>

text \<open>
  XsdManager.ts keeps the loaded workers in a \<^verbatim>\<open>Map\<close> from path to worker, read here
  through \<^verbatim>\<open>get\<close> and \<^verbatim>\<open>has\<close> only.
\<close>

type_synonym 'w XsdManager = "string \<rightharpoonup> 'w"

definition XsdManager_get :: "'w XsdManager \<Rightarrow> string \<Rightarrow> 'w option" where
  "XsdManager_get xsdWorkers p = xsdWorkers p"

definition XsdManager_has :: "'w XsdManager \<Rightarrow> string \<Rightarrow> bool" where
  "XsdManager_has xsdWorkers p = (xsdWorkers p \<noteq> None)"

text \<open>
  Modelled from the spec: the class XsdWorker is not among the sources. Its method
  \<^verbatim>\<open>withNamespace\<close> gives the schema source bound to a prefix (specification, 4.4),
  here the pair of the two.
\<close>

definition withNamespace :: "'w \<Rightarrow> string option \<Rightarrow> 'w \<times> string option" where
  "withNamespace xsdWorker ns = (xsdWorker, ns)"

text \<open>The loop of the second branch, over the entries of the map in their order.\<close>

fun workersOfEntries ::
  "'w XsdManager \<Rightarrow> (string \<times> INamespaceInfo) list \<Rightarrow> ('w \<times> string option) list" where
  "workersOfEntries xsdManager [] = []"
| "workersOfEntries xsdManager ((ns, namespaceInfo) # entries) =
     (if XsdManager_has xsdManager (path namespaceInfo) \<or> ns = [] then
        (case XsdManager_get xsdManager (path namespaceInfo) of
           Some xsdWorker \<Rightarrow> [withNamespace xsdWorker (prefix namespaceInfo)]
         | None \<Rightarrow> [])
      else [])
     @ workersOfEntries xsdManager entries"

text \<open>
  The keys of the map are strings, so the test \<^verbatim>\<open>namespace === undefined\<close> of the
  second branch is never true of a key and is left out of \<open>workersOfEntries\<close>.
\<close>

definition getXsdWorkersForNamespace ::
  "'w XsdManager \<Rightarrow> (string \<times> INamespaceInfo) list \<Rightarrow> string option
     \<Rightarrow> ('w \<times> string option) list" where
  "getXsdWorkersForNamespace xsdManager namespaces ns =
     (if truthy ns then
        (case ns of
           None \<Rightarrow> []
         | Some n \<Rightarrow>
            (case mapGet namespaces n of
               None \<Rightarrow> []
             | Some namespaceInfo \<Rightarrow>
                (case XsdManager_get xsdManager (path namespaceInfo) of
                   None \<Rightarrow> []
                 | Some xsdWorker \<Rightarrow> [withNamespace xsdWorker ns])))
      else workersOfEntries xsdManager namespaces)"

section \<open>The completions of a request\<close>

text \<open>
  \<open>doCompletion\<close> is the method of XsdWorker of that name, taken as a parameter.
  The result is \<open>None\<close> when the scan of the tags does not end.
\<close>

definition getCompletions ::
  "(('w \<times> string option) \<Rightarrow> CompletionType \<Rightarrow> string option \<Rightarrow> ICompletion list)
     \<Rightarrow> 'w XsdManager \<Rightarrow> Request \<Rightarrow> CompletionContext \<Rightarrow> ICompletion list option" where
  "getCompletions doCompletion xsdManager req context =
     (let completionType = getCompletionType (lineContent req) context in
      if completionType = none then Some []
      else
        (case getParentTag req of
           None \<Rightarrow> None
         | Some parentTag \<Rightarrow>
             if completionType = closingElement then Some (getClosingElementCompletion parentTag)
             else
               (let namespaces = getXsdNamespaces (fullText req);
                    completionNamespace = getCompletionNamespace (lineContent req);
                    xsdWorkers =
                      getXsdWorkersForNamespace xsdManager namespaces (Some completionNamespace);
                    parentTag' =
                      (case parentTag of
                         None \<Rightarrow> None
                       | Some tag \<Rightarrow> if tag \<noteq> [] then getTagWithoutNamespace tag else Some tag)
                in Some (concat (map (\<lambda>xsdWorker. doCompletion xsdWorker completionType parentTag')
                                     xsdWorkers)))))"

section \<open>The suggestion cache (CodeSuggestionCache)\<close>

datatype fetch = FetchRootElements | FetchSubElements string | FetchAttributes string

text \<open>
  Modelled from the spec: the class XsdParser, the Schema Provider, is not among the
  sources. Its three queries are pure and repeatable (specification, 6); \<open>fetched\<close> is
  the instrumentation of the specification's test (8): the calls made so far, the
  latest last.
\<close>

record 'n XsdParser =
  rootElementsOf :: "'n list"
  subElementsOf :: "string \<Rightarrow> 'n list"
  attributesOf :: "string \<Rightarrow> 'n list"
  fetched :: "fetch list"




text \<open>
  The two collections are JavaScript arrays written and read by index only, also at
  the index -1 that \<^verbatim>\<open>indexOf\<close> gives for a name not in \<open>nodeMap\<close>: maps from the index
  to the stored list, \<open>None\<close> where nothing is stored (\<^verbatim>\<open>undefined\<close>).
\<close>

record 'n CodeSuggestionCache =
  xsd :: "'n XsdParser"
  nodeMap :: "string list"
  elementCollections :: "int \<rightharpoonup> 'n list"
  attributeCollections :: "int \<rightharpoonup> 'n list"


fun indexOf :: "'a list \<Rightarrow> 'a \<Rightarrow> int" where
  "indexOf [] x = - 1"
| "indexOf (y # ys) x =
     (if y = x then 0 else (let i = indexOf ys x in if i < 0 then - 1 else i + 1))"

definition getIndexForNode :: "string \<Rightarrow> 'n CodeSuggestionCache \<Rightarrow> int" where
  "getIndexForNode node c = indexOf (nodeMap c) node"

definition getElementCollection :: "string \<Rightarrow> 'n CodeSuggestionCache \<Rightarrow> 'n list option" where
  "getElementCollection e c = elementCollections c (getIndexForNode e c)"







definition getAttributeCollection :: "string \<Rightarrow> 'n CodeSuggestionCache \<Rightarrow> 'n list option" where
  "getAttributeCollection e c = attributeCollections c (getIndexForNode e c)"




text \<open>A call of one of the two public methods, and a sequence of calls on one instance.\<close>

datatype call = Elements "string option" | Attributes string





text \<open>
  Where the source stores the list of a call: the collection that is read and the name
  that is looked up in \<open>nodeMap\<close>, which for an absent parent is the literal
  \<^verbatim>\<open>rootElements\<close>. The root and the parent element of that name are stored in one
  place.
\<close>

datatype collection = ElementCollection | AttributeCollection

fun storageKey :: "call \<Rightarrow> collection \<times> string" where
  "storageKey (Elements None) = (ElementCollection, ''rootElements'')"
| "storageKey (Elements (Some p)) = (ElementCollection, p)"
| "storageKey (Attributes e) = (AttributeCollection, e)"


fun providerAnswer :: "'n XsdParser \<Rightarrow> call \<Rightarrow> 'n list" where
  "providerAnswer x (Elements None) = rootElementsOf x"
| "providerAnswer x (Elements (Some p)) = subElementsOf x p"
| "providerAnswer x (Attributes e) = attributesOf x e"

section \<open>Auxiliary definitions of the proofs\<close>


definition withinNodeMap :: "nat \<Rightarrow> (int \<rightharpoonup> 'v) \<Rightarrow> bool" where
  "withinNodeMap n m = (\<forall>i. m i \<noteq> None \<longrightarrow> 0 \<le> i \<and> i < int n)"

definition cacheInvariant :: "'n CodeSuggestionCache \<Rightarrow> bool" where
  "cacheInvariant c =
     (withinNodeMap (length (nodeMap c)) (elementCollections c) \<and>
      withinNodeMap (length (nodeMap c)) (attributeCollections c))"

text \<open>The document, the worker method and the provider of the examples.\<close>

definition exampleDocument :: string where
  \<open>exampleDocument =
     ''<ns:root xmlns:ns="http://example/ns" xsi:schemaLocation="http://example/ns schema/a.xsd">''\<close>



section \<open>The stack of unclosed tags is name-matched and free of duplicates\<close>

lemma lastTag_snoc: "lastTag (xs @ [x]) = Some x"
  by (induction xs) (simp_all add: lastTag_def fromEnd_def)

lemma popUntil_snoc:
  "popUntil tag (xs @ [x]) = (if x = tag then Some (xs @ [x]) else popUntil tag xs)"
  by (subst popUntil.simps) (simp add: lastTag_snoc)

lemma popUntil_member:
  "tag \<in> set parentTags \<Longrightarrow>
     \<exists>below above. parentTags = below @ tag # above \<and> tag \<notin> set above \<and>
       popUntil tag parentTags = Some (below @ [tag])"
proof (induction parentTags rule: rev_induct)
  case Nil
  then show ?case by simp
next
  case (snoc x xs)
  show ?case
  proof (cases "x = tag")
    case True
    then have "xs @ [x] = xs @ tag # [] \<and> tag \<notin> set [] \<and> popUntil tag (xs @ [x]) = Some (xs @ [tag])"
      by (simp add: popUntil_snoc)
    then show ?thesis by blast
  next
    case False
    with snoc.prems have "tag \<in> set xs" by simp
    from snoc.IH [OF this] obtain below above where
      h: "xs = below @ tag # above" "tag \<notin> set above" "popUntil tag xs = Some (below @ [tag])"
      by blast
    have "popUntil tag (xs @ [x]) = popUntil tag xs"
      using False by (simp add: popUntil_snoc)
    with h(3) have p: "popUntil tag (xs @ [x]) = Some (below @ [tag])" by simp
    have "xs @ [x] = below @ tag # (above @ [x])" using h(1) by simp
    moreover have "tag \<notin> set (above @ [x])" using h(2) False by auto
    ultimately show ?thesis using p by blast
  qed
qed

lemma takeWhile_before:
  "tag \<notin> set below \<Longrightarrow> takeWhile (\<lambda>t. t \<noteq> tag) (below @ tag # rest) = below"
  by (induction below) auto

lemma visitTag_distinct:
  assumes "distinct parentTags"
  shows "visitTag parentTags tag = Some (nameMatchedStep parentTags tag)"
proof (cases "tag \<in> set parentTags")
  case False
  then show ?thesis by (simp add: visitTag_def nameMatchedStep_def)
next
  case True
  from popUntil_member [OF True] obtain below above where
    h: "parentTags = below @ tag # above" "popUntil tag parentTags = Some (below @ [tag])"
    by blast
  from assms h(1) have "tag \<notin> set below" by auto
  then have "takeWhile (\<lambda>t. t \<noteq> tag) parentTags = below"
    unfolding h(1) by (rule takeWhile_before)
  with True h(2) show ?thesis by (simp add: visitTag_def nameMatchedStep_def)
qed

lemma nameMatchedStep_distinct:
  "distinct stack \<Longrightarrow> distinct (nameMatchedStep stack token)"
  by (simp add: nameMatchedStep_def distinct_takeWhile)

lemma visitTags_distinct:
  "distinct parentTags \<Longrightarrow>
     visitTags parentTags tags = Some (foldl nameMatchedStep parentTags tags) \<and>
     distinct (foldl nameMatchedStep parentTags tags)"
proof (induction tags arbitrary: parentTags)
  case Nil
  then show ?case by simp
next
  case (Cons tag tags)
  from Cons.prems have d: "distinct (nameMatchedStep parentTags tag)"
    by (rule nameMatchedStep_distinct)
  from Cons.IH [OF d] Cons.prems show ?case
    by (simp add: visitTag_distinct)
qed

lemma tags_of_example_1: "getTagsFromText ''<a><b></b>'' = [''a'', ''b'', ''b'']"
  by code_simp
lemma tags_of_example_2: "getTagsFromText ''<a><b><c></b>'' = [''a'', ''b'', ''c'', ''b'']"
  by code_simp

text \<open>
  Claim C5. \<open>getUnclosedTags\<close> returns, and what it returns is the name-matched stack
  of the tag-name tokens of its input taken in document order: a token that is in the
  stack removes the entries from the end through and including the matching
  occurrence, any other token is appended. For \<^verbatim>\<open><a><b></b>\<close> the result is \<^verbatim>\<open>["a"]\<close>, and
  for \<^verbatim>\<open><a><b><c></b>\<close> it is \<^verbatim>\<open>["a"]\<close> as well, the dangling \<^verbatim>\<open>c\<close> being discarded.
\<close>

theorem C5_unclosed_tags_name_matched_stack:
  "getUnclosedTags text = Some (foldl nameMatchedStep [] (getTagsFromText text)) \<and>
   getUnclosedTags ''<a><b></b>'' = Some [''a''] \<and>
   getUnclosedTags ''<a><b><c></b>'' = Some [''a'']"
proof -
  have g: "\<And>t. getUnclosedTags t = Some (foldl nameMatchedStep [] (getTagsFromText t))"
    by (simp add: getUnclosedTags_def visitTags_distinct)
  have "foldl nameMatchedStep [] [''a'', ''b'', ''b''] = [''a'']"
    by (simp add: nameMatchedStep_def)
  moreover have "foldl nameMatchedStep [] [''a'', ''b'', ''c'', ''b''] = [''a'']"
    by (simp add: nameMatchedStep_def)
  ultimately show ?thesis
    using g by (simp add: tags_of_example_1 tags_of_example_2)
qed

text \<open>
  Claim C9. For every input text \<open>getUnclosedTags\<close> returns a stack of pairwise
  distinct tag names: each name occurs at most once in the result.
\<close>

theorem C9_unclosed_tags_distinct:
  "\<exists>stack. getUnclosedTags text = Some stack \<and> distinct stack"
  by (simp add: getUnclosedTags_def visitTags_distinct)



section \<open>What the regular expressions of the classifier match\<close>

lemma set_greedy: "set (greedy p s) = {n. 0 < n \<and> n \<le> length (takeWhile p s)}"
proof (induction s)
  case Nil
  then show ?case by auto
next
  case (Cons c cs)
  show ?case
  proof (cases "p c")
    case False
    then show ?thesis by auto
  next
    case True
    have "Suc ` {n. 0 < n \<and> n \<le> length (takeWhile p cs)} \<union> {Suc 0}
          = {n. 0 < n \<and> n \<le> Suc (length (takeWhile p cs))}"
    proof (rule set_eqI)
      fix n show "n \<in> Suc ` {n. 0 < n \<and> n \<le> length (takeWhile p cs)} \<union> {Suc 0}
          \<longleftrightarrow> n \<in> {n. 0 < n \<and> n \<le> Suc (length (takeWhile p cs))}"
        by (cases n) auto
    qed
    with True Cons.IH show ?thesis by simp
  qed
qed

lemma length_takeWhile_all:
  "length (takeWhile p xs) = length xs \<longleftrightarrow> (\<forall>x \<in> set xs. p x)"
proof (induction xs)
  case Nil
  then show ?case by simp
next
  case (Cons x xs)
  have "length (takeWhile p xs) \<le> length xs" by (rule length_takeWhile_le)
  with Cons show ?case by auto
qed

lemma greedy_nonempty: "greedy p s \<noteq> [] \<longleftrightarrow> (\<exists>c cs. s = c # cs \<and> p c)"
  by (cases s) auto

lemma ends_Seq_nonempty:
  "ends True (Seq r s) back ahead \<noteq> [] \<longleftrightarrow>
     (\<exists>n \<in> set (ends True r back ahead). ends True s (rev (take n ahead) @ back) (drop n ahead) \<noteq> [])"
  by (auto simp: concat_eq_Nil_conv)

lemma firstMatch_exists:
  "firstMatch r bef aft \<noteq> None \<longleftrightarrow>
     (\<exists>xs ys. aft = xs @ ys \<and> ends True r (rev xs @ bef) ys \<noteq> [])"
proof (induction aft arbitrary: bef)
  case Nil
  then show ?case by (auto split: list.splits)
next
  case (Cons c cs)
  show ?case
  proof (cases "ends True r bef (c # cs)")
    case (Cons n ns)
    then have "c # cs = [] @ (c # cs) \<and> ends True r (rev [] @ bef) (c # cs) \<noteq> []" by simp
    then have "\<exists>xs ys. c # cs = xs @ ys \<and> ends True r (rev xs @ bef) ys \<noteq> []" by blast
    with Cons show ?thesis by simp
  next
    case Nil
    have "(\<exists>xs ys. c # cs = xs @ ys \<and> ends True r (rev xs @ bef) ys \<noteq> []) \<longleftrightarrow>
          (\<exists>xs ys. cs = xs @ ys \<and> ends True r (rev xs @ c # bef) ys \<noteq> [])"
    proof
      assume "\<exists>xs ys. c # cs = xs @ ys \<and> ends True r (rev xs @ bef) ys \<noteq> []"
      then obtain xs ys where h: "c # cs = xs @ ys" "ends True r (rev xs @ bef) ys \<noteq> []" by blast
      show "\<exists>xs ys. cs = xs @ ys \<and> ends True r (rev xs @ c # bef) ys \<noteq> []"
      proof (cases xs)
        case Nil
        with h Nil \<open>ends True r bef (c # cs) = []\<close> show ?thesis by simp
      next
        case (Cons x xs')
        with h have "cs = xs' @ ys" "ends True r (rev xs' @ c # bef) ys \<noteq> []" by auto
        then show ?thesis by blast
      qed
    next
      assume "\<exists>xs ys. cs = xs @ ys \<and> ends True r (rev xs @ c # bef) ys \<noteq> []"
      then obtain xs ys where h: "cs = xs @ ys" "ends True r (rev xs @ c # bef) ys \<noteq> []" by blast
      then have "c # cs = (c # xs) @ ys \<and> ends True r (rev (c # xs) @ bef) ys \<noteq> []" by simp
      then show "\<exists>xs ys. c # cs = xs @ ys \<and> ends True r (rev xs @ bef) ys \<noteq> []" by blast
    qed
    with Nil Cons.IH [of "c # bef"] show ?thesis by simp
  qed
qed

lemma scanAll_nonempty:
  "scanAll r bef aft 0 \<noteq> [] \<longleftrightarrow> firstMatch r bef aft \<noteq> None"
  by (induction aft arbitrary: bef) (auto split: list.splits)

lemma value_run_to_end:
  "ends True (Seq (Plus isValueChar) Eoi) back rest \<noteq> [] \<longleftrightarrow> rest \<noteq> [] \<and> CHR 0x22 \<notin> set rest"
proof -
  have "ends True (Seq (Plus isValueChar) Eoi) back rest \<noteq> [] \<longleftrightarrow>
        (\<exists>n. 0 < n \<and> n \<le> length (takeWhile isValueChar rest) \<and> length rest \<le> n)"
    by (auto simp: ends_Seq_nonempty set_greedy)
  also have "\<dots> \<longleftrightarrow> rest \<noteq> [] \<and> length (takeWhile isValueChar rest) = length rest"
  proof -
    have "length (takeWhile isValueChar rest) \<le> length rest" by (rule length_takeWhile_le)
    then show ?thesis by (cases rest) auto
  qed
  also have "\<dots> \<longleftrightarrow> rest \<noteq> [] \<and> CHR 0x22 \<notin> set rest"
    by (auto simp: length_takeWhile_all isValueChar_def)
  finally show ?thesis .
qed

lemma inside_at:
  "ends True regexForInsideAttributeValue back ys \<noteq> [] \<longleftrightarrow>
     (\<exists>rest. ys = [CHR ''='', CHR 0x22] @ rest \<and> rest \<noteq> [] \<and> CHR 0x22 \<notin> set rest)"
proof -
  have "ends True regexForInsideAttributeValue back ys \<noteq> [] \<longleftrightarrow>
        take (Suc (Suc 0)) ys = [CHR ''='', CHR 0x22] \<and>
        ends True (Seq (Plus isValueChar) Eoi) (rev (take (Suc (Suc 0)) ys) @ back) (drop (Suc (Suc 0)) ys) \<noteq> []"
    unfolding regexForInsideAttributeValue_def ends_Seq_nonempty by (simp add: Let_def)
  also have "\<dots> \<longleftrightarrow> take (Suc (Suc 0)) ys = [CHR ''='', CHR 0x22] \<and> drop (Suc (Suc 0)) ys \<noteq> [] \<and> CHR 0x22 \<notin> set (drop (Suc (Suc 0)) ys)"
    by (simp only: value_run_to_end)
  also have "\<dots> \<longleftrightarrow> (\<exists>rest. ys = [CHR ''='', CHR 0x22] @ rest \<and> rest \<noteq> [] \<and> CHR 0x22 \<notin> set rest)"
  proof
    assume a: "take (Suc (Suc 0)) ys = [CHR ''='', CHR 0x22] \<and> drop (Suc (Suc 0)) ys \<noteq> [] \<and> CHR 0x22 \<notin> set (drop (Suc (Suc 0)) ys)"
    have "ys = take (Suc (Suc 0)) ys @ drop (Suc (Suc 0)) ys" by (simp only: append_take_drop_id)
    with a have "ys = [CHR ''='', CHR 0x22] @ drop (Suc (Suc 0)) ys" by simp
    with a show "\<exists>rest. ys = [CHR ''='', CHR 0x22] @ rest \<and> rest \<noteq> [] \<and> CHR 0x22 \<notin> set rest"
      by blast
  next
    assume "\<exists>rest. ys = [CHR ''='', CHR 0x22] @ rest \<and> rest \<noteq> [] \<and> CHR 0x22 \<notin> set rest"
    then show "take (Suc (Suc 0)) ys = [CHR ''='', CHR 0x22] \<and> drop (Suc (Suc 0)) ys \<noteq> [] \<and> CHR 0x22 \<notin> set (drop (Suc (Suc 0)) ys)"
      by auto
  qed
  finally show ?thesis .
qed

lemma isInsideAttributeValue_iff:
  "isInsideAttributeValue text \<longleftrightarrow>
     (\<exists>before rest. text = before @ [CHR ''='', CHR 0x22] @ rest \<and> rest \<noteq> [] \<and> CHR 0x22 \<notin> set rest)"
  unfolding isInsideAttributeValue_def firstMatch_exists inside_at by auto

lemma attribute_at:
  "ends True regexForAttributes back ys \<noteq> [] \<longleftrightarrow>
     (\<exists>c back' d ys'. back = c # back' \<and> ys = d # ys' \<and> isSpace c \<and> isAlnum d)"
  unfolding regexForAttributes_def ends_Seq_nonempty
  by (cases "back"; cases ys) (auto simp: greedy_nonempty)

lemma textContainsAttributes_iff:
  "textContainsAttributes text \<longleftrightarrow>
     (\<exists>xs c d ys. text = xs @ c # d # ys \<and> isSpace c \<and> isAlnum d)"
proof -
  have "textContainsAttributes text \<longleftrightarrow>
        (\<exists>xs ys. text = xs @ ys \<and> ends True regexForAttributes (rev xs @ []) ys \<noteq> [])"
    unfolding textContainsAttributes_def getAttributesFromText_def getMatchesForRegex_def
    by (simp only: length_greater_0_conv scanAll_nonempty firstMatch_exists)
  also have "\<dots> \<longleftrightarrow> (\<exists>xs c d ys. text = xs @ c # d # ys \<and> isSpace c \<and> isAlnum d)"
  proof
    assume "\<exists>xs ys. text = xs @ ys \<and> ends True regexForAttributes (rev xs @ []) ys \<noteq> []"
    then obtain xs ys where h: "text = xs @ ys" "ends True regexForAttributes (rev xs) ys \<noteq> []"
      by auto
    from h(2) obtain c back' d ys' where
      k: "rev xs = c # back'" "ys = d # ys'" "isSpace c" "isAlnum d"
      unfolding attribute_at by blast
    from k(1) have "xs = rev back' @ [c]" by (metis rev.simps(2) rev_rev_ident)
    with h(1) k have "text = rev back' @ c # d # ys' \<and> isSpace c \<and> isAlnum d" by simp
    then show "\<exists>xs c d ys. text = xs @ c # d # ys \<and> isSpace c \<and> isAlnum d" by blast
  next
    assume "\<exists>xs c d ys. text = xs @ c # d # ys \<and> isSpace c \<and> isAlnum d"
    then obtain xs c d ys where h: "text = xs @ c # d # ys" "isSpace c" "isAlnum d" by blast
    then have "text = (xs @ [c]) @ (d # ys) \<and> ends True regexForAttributes (rev (xs @ [c]) @ []) (d # ys) \<noteq> []"
      unfolding attribute_at by simp
    then show "\<exists>xs ys. text = xs @ ys \<and> ends True regexForAttributes (rev xs @ []) ys \<noteq> []"
      by blast
  qed
  finally show ?thesis .
qed

section \<open>The completion kind of a request\<close>

lemma getCompletions_none:
  "getCompletionType (lineContent req) context = none \<Longrightarrow>
     getCompletions doCompletion xsdManager req context = Some []"
  by (simp add: getCompletions_def)

text \<open>
  Claim C3, as the code has it. With the cursor at the end of its line: if the text
  before the cursor contains an opener \<^verbatim>\<open>="\<close> that is followed, up to the cursor, by one
  character or more, none of which is \<^verbatim>\<open>"\<close>, the completion kind is \<open>none\<close> for every
  trigger, and \<open>getCompletions\<close> returns the empty list without further processing.
\<close>

theorem C3_open_attribute_value_gives_none:
  assumes "textBeforeCursor line column = before @ [CHR ''='', CHR 0x22] @ rest"
    and "rest \<noteq> []" and "CHR 0x22 \<notin> set rest"
    and "length line < column"
  shows "getCompletionType line context = none \<and>
         getCompletions doCompletion xsdManager (req\<lparr>lineContent := line\<rparr>) context = Some []"
proof -
  from assms(4) have "textBeforeCursor line column = line"
    by (simp add: textBeforeCursor_def)
  with assms(1) have "line = before @ [CHR ''='', CHR 0x22] @ rest" by simp
  with assms(2,3) have "isInsideAttributeValue line"
    unfolding isInsideAttributeValue_iff by blast
  then have "getCompletionType line context = none"
    by (simp add: getCompletionType_def)
  then show ?thesis by (simp add: getCompletions_none)
qed

text \<open>
  The line of the specification's example, \<^verbatim>\<open>status="open tag <b>\<close>, with the cursor at
  its end, column 21.
\<close>

theorem C3_witness:
  \<open>getCompletionType ''status="open tag <b>'' \<lparr>triggerKind = Invoke, triggerCharacter = None\<rparr> = none \<and>
   getCompletions (\<lambda>w t p. []) (Map.empty :: unit XsdManager)
     \<lparr>lineContent = ''status="open tag <b>'', textUntilPosition = ''status="open tag <b>'',
      wordAtPosition = Some ''b'', fullText = ''status="open tag <b>''\<rparr>
     \<lparr>triggerKind = Invoke, triggerCharacter = None\<rparr> = Some []\<close>
proof -
  have h: \<open>textBeforeCursor ''status="open tag <b>'' 21
             = ''status'' @ [CHR ''='', CHR 0x22] @ ''open tag <b>''\<close>
    by (simp add: textBeforeCursor_def)
  have l: \<open>length ''status="open tag <b>'' < 21\<close> by simp
  show ?thesis
    using C3_open_attribute_value_gives_none
      [OF h _ _ l, of "\<lparr>triggerKind = Invoke, triggerCharacter = None\<rparr>"
        "\<lambda>w t p. []" "Map.empty :: unit XsdManager"
        \<open>\<lparr>lineContent = ''status="open tag <b>'', textUntilPosition = ''status="open tag <b>'',
          wordAtPosition = Some ''b'', fullText = ''status="open tag <b>''\<rparr>\<close>]
    by simp
qed

text \<open>
  Right after the opener, with no character typed in the value yet, the test of the
  source (\<^verbatim>\<open>[^"]+\<close>, one character or more) fails: on the line \<^verbatim>\<open><a b="\<close> with the cursor
  at its end, column 7, an explicit invocation is classified \<open>incompleteAttribute\<close>,
  not \<open>none\<close>.
\<close>

theorem C3_counterexample:
  \<open>textBeforeCursor ''<a b="'' 7 = ''<a b="'' \<and>
   getCompletionType ''<a b="'' \<lparr>triggerKind = Invoke, triggerCharacter = None\<rparr>
     = incompleteAttribute\<close>
  by code_simp

text \<open>
  Claim C4, as the code has it. For a trigger that is a single character, the kind is
  \<open>none\<close> when the line ends inside an open attribute value; otherwise it is \<open>element\<close>
  for \<^verbatim>\<open><\<close>, \<open>attribute\<close> for a space, \<open>closingElement\<close> for \<^verbatim>\<open>/\<close> and \<open>none\<close> for any other
  character.
\<close>

theorem C4_trigger_character:
  assumes "triggerKind context = TriggerCharacter" and "triggerCharacter context = Some [c]"
  shows "getCompletionType line context =
           (if isInsideAttributeValue line then none
            else if c = CHR ''<'' then element
            else if c = CHR '' '' then attribute
            else if c = CHR ''/'' then closingElement
            else none)"
  using assms by (simp add: getCompletionType_def getCompletionTypeByTriggerCharacter_def)

theorem C4_witness:
  "getCompletionType ''<r><'' \<lparr>triggerKind = TriggerCharacter, triggerCharacter = Some ''<''\<rparr> = element"
proof -
  have "\<not> isInsideAttributeValue ''<r><''" by code_simp
  then show ?thesis
    using C4_trigger_character [of "\<lparr>triggerKind = TriggerCharacter, triggerCharacter = Some ''<''\<rparr>"
        "CHR ''<''" "''<r><''"]
    by simp
qed

text \<open>
  The trigger \<^verbatim>\<open><\<close> typed inside an attribute value gives \<open>none\<close>, not \<open>element\<close>: the test of
  the attribute value comes first.
\<close>

theorem C4_counterexample:
  \<open>getCompletionType ''<r a="x<''
     \<lparr>triggerKind = TriggerCharacter, triggerCharacter = Some ''<''\<rparr> = none\<close>
  by code_simp

text \<open>
  Claim C7, as the code has it. For a line that does not end inside an open attribute
  value and a trigger that is not a character, the kind is \<open>incompleteAttribute\<close> exactly
  when some letter or digit of the line directly follows a whitespace character,
  whether or not a tag opener precedes it; otherwise \<open>incompleteElement\<close> when the line
  has one tag-name token or more; otherwise \<open>snippet\<close>.
\<close>

theorem C7_incomplete_completion:
  assumes "\<not> isInsideAttributeValue line"
    and "triggerKind context = Invoke \<or> triggerKind context = TriggerForIncompleteCompletions"
  shows "getCompletionType line context =
           (if (\<exists>xs c d ys. line = xs @ c # d # ys \<and> isSpace c \<and> isAlnum d)
              then incompleteAttribute
            else if getTagsFromText line \<noteq> [] then incompleteElement
            else snippet)"
proof -
  define spaced where "spaced = (\<exists>xs c d ys. line = xs @ c # d # ys \<and> isSpace c \<and> isAlnum d)"
  have a: "textContainsAttributes line = spaced"
    unfolding spaced_def by (rule textContainsAttributes_iff)
  have "getCompletionType line context = getCompletionTypeForIncompleteCompletion line"
    using assms by (cases "triggerKind context") (simp_all add: getCompletionType_def)
  also have "\<dots> = (if spaced then incompleteAttribute
                     else if getTagsFromText line \<noteq> [] then incompleteElement else snippet)"
    by (simp add: getCompletionTypeForIncompleteCompletion_def a textContainsTags_def)
  finally show ?thesis unfolding spaced_def .
qed

theorem C7_witness:
  "getCompletionType ''<a b'' \<lparr>triggerKind = Invoke, triggerCharacter = None\<rparr> = incompleteAttribute"
proof -
  have i: "\<not> isInsideAttributeValue ''<a b''" by code_simp
  have e: "\<exists>xs c d ys. ''<a b'' = xs @ c # d # ys \<and> isSpace c \<and> isAlnum d"
  proof -
    have "''<a b'' = ''<a'' @ CHR '' '' # CHR ''b'' # [] \<and> isSpace (CHR '' '') \<and> isAlnum (CHR ''b'')"
      by (simp add: isSpace_def isAlnum_def)
    then show ?thesis by blast
  qed
  show ?thesis
    using C7_incomplete_completion [of "''<a b''" "\<lparr>triggerKind = Invoke, triggerCharacter = None\<rparr>"] i e
    by simp
qed

text \<open>
  The line \<^verbatim>\<open>a b\<close> has no tag opener, hence no attribute name after one, and is
  classified \<open>incompleteAttribute\<close> all the same.
\<close>

theorem C7_counterexample:
  "getCompletionType ''a b'' \<lparr>triggerKind = Invoke, triggerCharacter = None\<rparr> = incompleteAttribute \<and>
   CHR ''<'' \<notin> set ''a b''"
  by code_simp

section \<open>The namespaces of a document and the schema sources\<close>

lemma map_of_mapSet: "map_of (mapSet k v m) = (map_of m)(k \<mapsto> v)"
  by (induction m) (auto simp: fun_eq_iff)

lemma mapGet_mapSet: "mapGet (mapSet k v m) k' = (if k' = k then Some v else mapGet m k')"
  by (simp add: mapGet_def map_of_mapSet)

lemma keys_mapSet: "fst ` set (mapSet k v m) = insert k (fst ` set m)"
proof -
  have "dom (map_of (mapSet k v m)) = insert k (dom (map_of m))"
    by (simp add: map_of_mapSet)
  then show ?thesis by (simp only: dom_map_of_conv_image_fst)
qed

lemma distinct_mapSet: "distinct (map fst m) \<Longrightarrow> distinct (map fst (mapSet k v m))"
  by (induction m) (auto simp: keys_mapSet)

lemma setLocations_distinct:
  "distinct (map fst m) \<Longrightarrow> distinct (map fst (setLocations m i previous locations))"
  by (induction locations arbitrary: m i previous) (auto simp: distinct_mapSet split: option.splits)

lemma foldl_distinct:
  assumes "\<And>m x. distinct (map fst m) \<Longrightarrow> distinct (map fst (f m x))"
  shows "distinct (map fst m) \<Longrightarrow> distinct (map fst (foldl f m xs))"
  by (induction xs arbitrary: m) (auto simp: assms)

lemma getNamespacesSchemaLocations_distinct:
  "distinct (map fst (getNamespacesSchemaLocations text))"
  unfolding getNamespacesSchemaLocations_def Let_def
  by (intro foldl_distinct) (simp_all add: setLocations_distinct distinct_mapSet)

text \<open>The loop of \<open>matchNamespacesAndNamespaceSchemaLocations\<close>, from any map built so far.\<close>

lemma matched_entry:
  assumes "mapGet (foldl (\<lambda>matched (p, uri). mapSet uri \<lparr> prefix = mapGet namespaces uri, path = p \<rparr> matched)
                     acc locations) k = Some info"
  shows "mapGet acc k = Some info \<or>
         ((path info, k) \<in> set locations \<and> prefix info = mapGet namespaces k)"
  using assms
proof (induction locations arbitrary: acc)
  case Nil
  then show ?case by simp
next
  case (Cons entry locations)
  obtain p uri where e: "entry = (p, uri)" by (cases entry)
  from Cons.prems e Cons.IH [of "mapSet uri \<lparr> prefix = mapGet namespaces uri, path = p \<rparr> acc"]
  have "mapGet (mapSet uri \<lparr> prefix = mapGet namespaces uri, path = p \<rparr> acc) k = Some info \<or>
        ((path info, k) \<in> set locations \<and> prefix info = mapGet namespaces k)"
    by simp
  then show ?case
    using e by (auto simp: mapGet_mapSet split: if_splits)
qed

lemma matched_keys:
  "fst ` set (foldl (\<lambda>matched (p, uri). mapSet uri \<lparr> prefix = mapGet namespaces uri, path = p \<rparr> matched)
                     acc locations) = fst ` set acc \<union> snd ` set locations"
proof (induction locations arbitrary: acc)
  case Nil
  then show ?case by simp
next
  case (Cons entry locations)
  obtain p uri where e: "entry = (p, uri)" by (cases entry)
  show ?case
    unfolding e by (simp add: Cons.IH keys_mapSet)
qed

lemma namespaces_of_example:
  "getXsdNamespaces exampleDocument =
     [(''http://example/ns'', \<lparr> prefix = Some ''ns'', path = ''schema/a.xsd'' \<rparr>)]"
  by code_simp

text \<open>
  Claim C1, as the code has it. For every full document text the map that
  \<open>getXsdNamespaces\<close> returns is keyed by the namespace URI: its keys are the URIs of the
  schema-location map, and the binding under a URI holds a schema path that the
  schema-location map pairs with this URI and the prefix declared for the URI (absent
  when none is). For the document with \<^verbatim>\<open>xmlns:ns="http://example/ns"\<close> and
  \<^verbatim>\<open>xsi:schemaLocation="http://example/ns schema/a.xsd"\<close> the map has the one key
  \<^verbatim>\<open>http://example/ns\<close>, mapped to the binding with prefix \<^verbatim>\<open>ns\<close> and path
  \<^verbatim>\<open>schema/a.xsd\<close>.
\<close>

theorem C1_namespaces_keyed_by_uri:
  "(\<forall>uri info. mapGet (getXsdNamespaces text) uri = Some info \<longrightarrow>
      mapGet (getNamespacesSchemaLocations text) (path info) = Some uri \<and>
      prefix info = mapGet (getNamespaces text) uri) \<and>
   fst ` set (getXsdNamespaces text) = snd ` set (getNamespacesSchemaLocations text) \<and>
   getXsdNamespaces exampleDocument =
     [(''http://example/ns'', \<lparr> prefix = Some ''ns'', path = ''schema/a.xsd'' \<rparr>)]"
proof -
  have "mapGet (getNamespacesSchemaLocations text) (path info) = Some uri \<and>
        prefix info = mapGet (getNamespaces text) uri"
    if h: "mapGet (getXsdNamespaces text) uri = Some info" for uri info
  proof -
    from h have "mapGet [] uri = Some info \<or>
        ((path info, uri) \<in> set (getNamespacesSchemaLocations text) \<and>
         prefix info = mapGet (getNamespaces text) uri)"
      unfolding getXsdNamespaces_def matchNamespacesAndNamespaceSchemaLocations_def
      by (rule matched_entry)
    then have m: "(path info, uri) \<in> set (getNamespacesSchemaLocations text)"
      and p: "prefix info = mapGet (getNamespaces text) uri"
      by (simp_all add: mapGet_def)
    from m getNamespacesSchemaLocations_distinct [of "text"]
    have "map_of (getNamespacesSchemaLocations text) (path info) = Some uri"
      by simp
    with p show ?thesis by (simp add: mapGet_def)
  qed
  moreover have "fst ` set (getXsdNamespaces text) = snd ` set (getNamespacesSchemaLocations text)"
    unfolding getXsdNamespaces_def matchNamespacesAndNamespaceSchemaLocations_def
    by (simp add: matched_keys)
  ultimately show ?thesis
    using namespaces_of_example by blast
qed

theorem C1_witness:
  "mapGet (getNamespacesSchemaLocations exampleDocument) ''schema/a.xsd'' = Some ''http://example/ns'' \<and>
   Some ''ns'' = mapGet (getNamespaces exampleDocument) ''http://example/ns''"
proof -
  have "mapGet (getXsdNamespaces exampleDocument) ''http://example/ns'' =
          Some \<lparr> prefix = Some ''ns'', path = ''schema/a.xsd'' \<rparr>"
    by (simp add: namespaces_of_example mapGet_def)
  with C1_namespaces_keyed_by_uri [of exampleDocument]
  have "mapGet (getNamespacesSchemaLocations exampleDocument)
          (path \<lparr> prefix = Some ''ns'', path = ''schema/a.xsd'' \<rparr>) = Some ''http://example/ns'' \<and>
        prefix \<lparr> prefix = Some ''ns'', path = ''schema/a.xsd'' \<rparr> =
          mapGet (getNamespaces exampleDocument) ''http://example/ns''"
    by blast
  then show ?thesis by simp
qed

text \<open>The schema path is not a key of the map of the example document.\<close>

theorem C1_counterexample:
  "mapGet (getXsdNamespaces exampleDocument) ''schema/a.xsd'' = None"
  by (simp add: namespaces_of_example mapGet_def)

text \<open>
  Claim C2 at the example document, with the schema \<^verbatim>\<open>schema/a.xsd\<close> loaded: the map
  holds a binding whose prefix is \<^verbatim>\<open>ns\<close>, yet for the requested prefix \<^verbatim>\<open>ns\<close> the selection
  is empty, because \<open>getXsdWorkersForNamespace\<close> looks the prefix up as a key of the
  map, whose keys are URIs. Only a request for the URI itself finds the binding.
\<close>

theorem C2_requested_prefix_is_looked_up_as_key:
  "getXsdNamespaces exampleDocument =
     [(''http://example/ns'', \<lparr> prefix = Some ''ns'', path = ''schema/a.xsd'' \<rparr>)] \<and>
   getXsdWorkersForNamespace (Map.empty(''schema/a.xsd'' \<mapsto> ())) (getXsdNamespaces exampleDocument)
     (Some ''ns'') = [] \<and>
   getXsdWorkersForNamespace (Map.empty(''schema/a.xsd'' \<mapsto> ())) (getXsdNamespaces exampleDocument)
     (Some ''http://example/ns'') = [((), Some ''http://example/ns'')]"
  by (simp add: namespaces_of_example getXsdWorkersForNamespace_def truthy_def mapGet_def
      XsdManager_get_def withNamespace_def)

section \<open>Requests without a schema source\<close>










section \<open>The suggestion cache fetches once for each stored key\<close>










lemma cacheInvariant_xsd [simp]: "cacheInvariant (c\<lparr>xsd := x\<rparr>) = cacheInvariant c"
  by (simp add: cacheInvariant_def)

lemma getElementCollection_xsd [simp]:
  "getElementCollection y (c\<lparr>xsd := x\<rparr>) = getElementCollection y c"
  by (simp add: getElementCollection_def getIndexForNode_def)

lemma getAttributeCollection_xsd [simp]:
  "getAttributeCollection y (c\<lparr>xsd := x\<rparr>) = getAttributeCollection y c"
  by (simp add: getAttributeCollection_def getIndexForNode_def)

lemma providerAnswer_fetched [simp]:
  "providerAnswer (x\<lparr>fetched := l\<rparr>) k = providerAnswer x k"
  by (cases k rule: storageKey.cases) simp_all



























end
